theory Spec2Isabelle
  imports Main "HOL-Library.List_Lexorder" "HOL-Library.Char_ord" "HOL-Library.Sublist"
begin

section \<open>The dbbackup management command\<close>

text \<open>
  A shallow embedding of \<^verbatim>\<open>src/dbbackup/management/commands/dbbackup.py\<close>: the
  \<^verbatim>\<open>Command\<close> class with its methods \<^verbatim>\<open>handle\<close>, \<^verbatim>\<open>_save_new_backup\<close>,
  \<^verbatim>\<open>_cleanup_old_backups\<close> and \<^verbatim>\<open>write_local_file\<close>.

  Everything the command imports from elsewhere (the storage backend, the connector, the
  \<^verbatim>\<open>DBCommands\<close> classes, \<^verbatim>\<open>utils.compress_file\<close>, \<^verbatim>\<open>utils.encrypt_file\<close>, the settings,
  \<^verbatim>\<open>re\<close> and \<^verbatim>\<open>datetime\<close>) is a parameter, collected in the record \<open>env\<close>. Every call
  that can raise returns the exception as a value. Calls to \<^verbatim>\<open>self.logger.info\<close> only
  print and are left out, and with them the \<^verbatim>\<open>quiet\<close> flag's effect. The decorator
  \<^verbatim>\<open>utils.email_uncaught_exception\<close> around \<^verbatim>\<open>handle\<close> is outside the model: \<open>handle\<close>
  returns the exception that reaches it.
\<close>

subsection \<open>Data\<close>

text \<open>A file object is the bytes it holds.\<close>

type_synonym stream = string

text \<open>
  The exceptions the command meets. \<open>StorageError\<close> is the one \<^verbatim>\<open>handle\<close> catches and
  \<open>CommandError\<close> the one it raises instead; \<open>IndexError\<close> is what \<^verbatim>\<open>re.findall(...)[0]\<close>
  raises on an empty list, \<open>KeyError\<close> what \<^verbatim>\<open>settings.DATABASES[key]\<close> raises on an unknown
  key; \<open>OtherError\<close> stands for any other exception class a collaborator raises.
\<close>

datatype exn =
    StorageError string
  | CommandError exn
  | IndexError
  | KeyError string
  | ValueError string
  | OtherError string

text \<open>The \<^verbatim>\<open>datetime\<close> value \<^verbatim>\<open>strptime\<close> returns.\<close>

record datetime =
  year :: nat
  month :: nat
  day :: nat
  hour :: nat
  minute :: nat
  second :: nat

text \<open>One entry of \<^verbatim>\<open>settings.DATABASES\<close>: the keys the command reads.\<close>

record database =
  ENGINE :: string
  NAME :: string

text \<open>
  The \<^verbatim>\<open>self.dbcommands\<close> object: \<^verbatim>\<open>filename(servername)\<close>,
  \<^verbatim>\<open>filter_filepaths(filepaths)\<close>, and, for line 106-107,
  \<^verbatim>\<open>re.findall(r'^%s' % filename_match(servername, '(.*?)'), os.path.basename(filepath))\<close>
  as one function of the server name and the path.
\<close>

record dbcommands =
  dbc_filename :: "string option \<Rightarrow> string"
  filter_filepaths :: "string list \<Rightarrow> string list"
  findall_filename_match :: "string option \<Rightarrow> string \<Rightarrow> string list"

text \<open>The \<^verbatim>\<open>self.connector\<close> object: what \<^verbatim>\<open>create_dump()\<close> returns or raises.\<close>

record connector =
  create_dump :: "exn + stream"

text \<open>
  The collaborators and settings. \<open>'s\<close> is the state of the storage backend.
  \<open>open_wb\<close> is what \<^verbatim>\<open>open(path, 'wb')\<close> raises, if anything.
\<close>

record 's env =
  CLEANUP_KEEP :: int
  DBBACKUP_DATABASES :: "string list"
  SETTINGS_DATABASES :: "string \<rightharpoonup> database"
  strptime :: "string \<Rightarrow> exn + datetime"
  MongoDBCommands :: "database \<Rightarrow> dbcommands"
  DBCommands :: "database \<Rightarrow> dbcommands"
  get_connector :: "string \<Rightarrow> connector"
  compress_file :: "stream \<Rightarrow> string \<Rightarrow> exn + (stream \<times> string)"
  encrypt_file :: "stream \<Rightarrow> string \<Rightarrow> exn + (stream \<times> string)"
  list_directory :: "'s \<Rightarrow> exn + string list"
  write_file :: "stream \<Rightarrow> string \<Rightarrow> 's \<Rightarrow> exn option \<times> 's"
  delete_file :: "string \<Rightarrow> 's \<Rightarrow> exn option \<times> 's"
  open_wb :: "string \<Rightarrow> exn option"

text \<open>The options \<^verbatim>\<open>handle\<close> receives.\<close>

record options =
  opt_verbosity :: int
  opt_quiet :: bool
  opt_clean :: bool
  opt_database :: "string option"
  opt_servername :: "string option"
  opt_compress :: bool
  opt_encrypt :: bool
  opt_output_filename :: "string option"
  opt_output_path :: "string option"

text \<open>The attributes of \<^verbatim>\<open>self\<close> that lines 42-51 set.\<close>

record command =
  verbosity :: int
  quiet :: bool
  clean :: bool
  clean_keep :: int
  database_opt :: "string option"
  servername :: "string option"
  compress :: bool
  encrypt :: bool
  filename :: "string option"
  path :: "string option"

text \<open>
  The calls made to the collaborators, in order: the trace of a run. A call is recorded
  when it is made, whether it then raises or not.
\<close>

datatype call =
    CreateDump
  | CompressFile string
  | EncryptFile string
  | WriteFile stream string
  | WriteLocalFile stream string
  | ListDirectory
  | DeleteFile string

text \<open>What a run changes: the storage backend, the local file system, the trace.\<close>

record 's world =
  storage :: 's
  local_files :: "string \<rightharpoonup> stream"
  calls :: "call list"

definition record_call :: "call \<Rightarrow> 's world \<Rightarrow> 's world" where
  "record_call c w = w\<lparr>calls := calls w @ [c]\<rparr>"

subsection \<open>Python's truth values, slices and indexing\<close>

text \<open>\<^verbatim>\<open>x if x else y\<close> on an optional string: \<^verbatim>\<open>None\<close> and \<^verbatim>\<open>''\<close> are false.\<close>

definition truthy :: "string option \<Rightarrow> bool" where
  "truthy x = (case x of None \<Rightarrow> False | Some s \<Rightarrow> s \<noteq> [])"

text \<open>
  \<^verbatim>\<open>xs[0:j]\<close>: a negative \<open>j\<close> counts from the end, and the bound is clamped to the
  list.
\<close>

definition slice_to :: "'a list \<Rightarrow> int \<Rightarrow> 'a list" where
  "slice_to xs j =
     (let n = int (length xs);
          stop = (if j < 0 then max (j + n) 0 else min j n)
      in take (nat stop) xs)"

text \<open>\<^verbatim>\<open>xs[0]\<close>.\<close>

definition index0 :: "'a list \<Rightarrow> exn + 'a" where
  "index0 xs = (case xs of [] \<Rightarrow> Inl IndexError | x # _ \<Rightarrow> Inr x)"

text \<open>\<^verbatim>\<open>'mongo' in s\<close>.\<close>

definition contains_mongo :: "string \<Rightarrow> bool" where
  "contains_mongo s = sublist ''mongo'' s"

subsection \<open>The storage calls, traced\<close>

definition storage_list_directory :: "'s env \<Rightarrow> 's world \<Rightarrow> (exn + string list) \<times> 's world" where
  "storage_list_directory env w =
     (list_directory env (storage w), record_call ListDirectory w)"

definition storage_write_file ::
  "'s env \<Rightarrow> stream \<Rightarrow> string \<Rightarrow> 's world \<Rightarrow> exn option \<times> 's world" where
  "storage_write_file env outputfile name w =
     (case write_file env outputfile name (storage w) of
        (r, s') \<Rightarrow> (r, record_call (WriteFile outputfile name) (w\<lparr>storage := s'\<rparr>)))"

definition storage_delete_file ::
  "'s env \<Rightarrow> string \<Rightarrow> 's world \<Rightarrow> exn option \<times> 's world" where
  "storage_delete_file env filepath w =
     (case delete_file env filepath (storage w) of
        (r, s') \<Rightarrow> (r, record_call (DeleteFile filepath) (w\<lparr>storage := s'\<rparr>)))"

subsection \<open>\<^verbatim>\<open>write_local_file\<close> (lines 115-119)\<close>

text \<open>
  \<^verbatim>\<open>outputfile.seek(0)\<close>, then \<^verbatim>\<open>open(path, 'wb')\<close> and \<^verbatim>\<open>copyfileobj\<close>: the file at
  \<open>path\<close> holds the whole stream afterwards, unless \<^verbatim>\<open>open\<close> raises.
\<close>

definition write_local_file ::
  "'s env \<Rightarrow> stream \<Rightarrow> string \<Rightarrow> 's world \<Rightarrow> exn option \<times> 's world" where
  "write_local_file env outputfile p w =
     (let w1 = record_call (WriteLocalFile outputfile p) w in
      case open_wb env p of
        Some e \<Rightarrow> (Some e, w1)
      | None \<Rightarrow> (None, w1\<lparr>local_files := (local_files w1)(p \<mapsto> outputfile)\<rparr>))"

subsection \<open>\<^verbatim>\<open>_save_new_backup\<close> (lines 69-95)\<close>

text \<open>
  Lines 75-84: the dump, the two optional stages in the order of the source (compress,
  then encrypt, each on the output of the one before), and the choice of the file name.
\<close>

definition backup_artifact ::
  "'s env \<Rightarrow> command \<Rightarrow> dbcommands \<Rightarrow> connector \<Rightarrow> 's world
     \<Rightarrow> (exn + stream \<times> string) \<times> 's world" where
  "backup_artifact env self dbc conn w =
     (let filename0 = dbc_filename dbc (servername self);
          w1 = record_call CreateDump w
      in case create_dump conn of
           Inl e \<Rightarrow> (Inl e, w1)
         | Inr outputfile0 \<Rightarrow>
             (case (if compress self
                    then (compress_file env outputfile0 filename0,
                          record_call (CompressFile filename0) w1)
                    else (Inr (outputfile0, filename0), w1)) of
                (Inl e, w2) \<Rightarrow> (Inl e, w2)
              | (Inr (outputfile1, filename1), w2) \<Rightarrow>
                  (case (if encrypt self
                         then (encrypt_file env outputfile1 filename1,
                               record_call (EncryptFile filename1) w2)
                         else (Inr (outputfile1, filename1), w2)) of
                     (Inl e, w3) \<Rightarrow> (Inl e, w3)
                   | (Inr (outputfile2, filename2), w3) \<Rightarrow>
                       (Inr (outputfile2,
                             if truthy (filename self) then the (filename self)
                             else filename2), w3))))"

text \<open>Lines 88-95: the write, to the storage or to the local path.\<close>

definition save_new_backup ::
  "'s env \<Rightarrow> command \<Rightarrow> dbcommands \<Rightarrow> connector \<Rightarrow> 's world \<Rightarrow> exn option \<times> 's world" where
  "save_new_backup env self dbc conn w =
     (case backup_artifact env self dbc conn w of
        (Inl e, w') \<Rightarrow> (Some e, w')
      | (Inr (outputfile, name), w') \<Rightarrow>
          (case path self of
             None \<Rightarrow> storage_write_file env outputfile name w'
           | Some p \<Rightarrow> write_local_file env outputfile p w'))"

subsection \<open>\<^verbatim>\<open>_cleanup_old_backups\<close> (lines 97-112)\<close>

text \<open>Lines 106-108: the date string of a path, then its \<^verbatim>\<open>datetime\<close>.\<close>

definition parse_datetime ::
  "'s env \<Rightarrow> command \<Rightarrow> dbcommands \<Rightarrow> string \<Rightarrow> exn + datetime" where
  "parse_datetime env self dbc filepath =
     (case index0 (findall_filename_match dbc (servername self) filepath) of
        Inl e \<Rightarrow> Inl e
      | Inr datestr \<Rightarrow> strptime env datestr)"

text \<open>
  The body of the \<^verbatim>\<open>for\<close> loop, over the paths still to visit. An exception leaves the
  loop at once, with the world as it is then.
\<close>

fun cleanup_loop ::
  "'s env \<Rightarrow> command \<Rightarrow> dbcommands \<Rightarrow> string list \<Rightarrow> 's world \<Rightarrow> exn option \<times> 's world" where
  "cleanup_loop env self dbc [] w = (None, w)"
| "cleanup_loop env self dbc (filepath # rest) w =
     (case parse_datetime env self dbc filepath of
        Inl e \<Rightarrow> (Some e, w)
      | Inr dateTime \<Rightarrow>
          if int (day dateTime) \<noteq> 1
          then (case storage_delete_file env filepath w of
                  (Some e, w') \<Rightarrow> (Some e, w')
                | (None, w') \<Rightarrow> cleanup_loop env self dbc rest w')
          else cleanup_loop env self dbc rest w)"

text \<open>Lines 104-105: \<^verbatim>\<open>sorted(filepaths[0:-self.clean_keep])\<close> of the filtered listing.\<close>

definition candidates :: "command \<Rightarrow> dbcommands \<Rightarrow> string list \<Rightarrow> string list" where
  "candidates self dbc listing =
     sort (slice_to (filter_filepaths dbc listing) (- clean_keep self))"

definition cleanup_old_backups ::
  "'s env \<Rightarrow> command \<Rightarrow> dbcommands \<Rightarrow> 's world \<Rightarrow> exn option \<times> 's world" where
  "cleanup_old_backups env self dbc w =
     (case storage_list_directory env w of
        (Inl e, w') \<Rightarrow> (Some e, w')
      | (Inr filepaths, w') \<Rightarrow> cleanup_loop env self dbc (candidates self dbc filepaths) w')"

subsection \<open>\<^verbatim>\<open>handle\<close> (lines 40-67)\<close>

text \<open>Lines 42-51.\<close>

definition command_of :: "'s env \<Rightarrow> options \<Rightarrow> command" where
  "command_of env opts =
     \<lparr>verbosity = opt_verbosity opts, quiet = opt_quiet opts, clean = opt_clean opts,
      clean_keep = CLEANUP_KEEP env, database_opt = opt_database opts,
      servername = opt_servername opts, compress = opt_compress opts,
      encrypt = opt_encrypt opts, filename = opt_output_filename opts,
      path = opt_output_path opts\<rparr>"

text \<open>Line 53.\<close>

definition database_keys :: "'s env \<Rightarrow> command \<Rightarrow> string list" where
  "database_keys env self =
     (if truthy (database_opt self) then [the (database_opt self)]
      else DBBACKUP_DATABASES env)"

text \<open>
  Lines 56-59. Building the commands object, and \<^verbatim>\<open>get_connector\<close> on line 60, are
  taken not to raise.
\<close>

definition dbcommands_of :: "'s env \<Rightarrow> database \<Rightarrow> dbcommands" where
  "dbcommands_of env db =
     (if contains_mongo (ENGINE db) then MongoDBCommands env db else DBCommands env db)"

text \<open>Lines 63-65: the body of the \<^verbatim>\<open>try\<close>.\<close>

definition try_body ::
  "'s env \<Rightarrow> command \<Rightarrow> dbcommands \<Rightarrow> connector \<Rightarrow> 's world \<Rightarrow> exn option \<times> 's world" where
  "try_body env self dbc conn w =
     (case save_new_backup env self dbc conn w of
        (Some e, w') \<Rightarrow> (Some e, w')
      | (None, w') \<Rightarrow>
          if clean self then cleanup_old_backups env self dbc w' else (None, w'))"

text \<open>
  Lines 66-67: \<^verbatim>\<open>except StorageError as err: raise CommandError(err)\<close>; any other
  exception passes through.
\<close>

definition except_StorageError :: "exn \<Rightarrow> exn" where
  "except_StorageError e = (case e of StorageError m \<Rightarrow> CommandError e | _ \<Rightarrow> e)"

text \<open>Lines 55-67: one turn of the loop over the database keys.\<close>

definition handle_database ::
  "'s env \<Rightarrow> command \<Rightarrow> string \<Rightarrow> 's world \<Rightarrow> exn option \<times> 's world" where
  "handle_database env self database_key w =
     (case SETTINGS_DATABASES env database_key of
        None \<Rightarrow> (Some (KeyError database_key), w)
      | Some db \<Rightarrow>
          (case try_body env self (dbcommands_of env db) (get_connector env database_key) w of
             (Some e, w') \<Rightarrow> (Some (except_StorageError e), w')
           | (None, w') \<Rightarrow> (None, w')))"

text \<open>Line 54: the loop. An exception ends it; the keys after it are not visited.\<close>

fun handle_loop ::
  "'s env \<Rightarrow> command \<Rightarrow> string list \<Rightarrow> 's world \<Rightarrow> exn option \<times> 's world" where
  "handle_loop env self [] w = (None, w)"
| "handle_loop env self (database_key # rest) w =
     (case handle_database env self database_key w of
        (Some e, w') \<Rightarrow> (Some e, w')
      | (None, w') \<Rightarrow> handle_loop env self rest w')"

definition handle :: "'s env \<Rightarrow> options \<Rightarrow> 's world \<Rightarrow> exn option \<times> 's world" where
  "handle env opts w =
     (let self = command_of env opts in handle_loop env self (database_keys env self) w)"

subsection \<open>Reading a trace\<close>

text \<open>The calls a step added to the trace: those of \<open>w'\<close> after those of \<open>w\<close>.\<close>

definition new_calls :: "'s world \<Rightarrow> 's world \<Rightarrow> call list" where
  "new_calls w w' = drop (length (calls w)) (calls w')"

text \<open>The paths \<^verbatim>\<open>delete_file\<close> was called on, in order.\<close>

fun deleted_paths :: "call list \<Rightarrow> string list" where
  "deleted_paths [] = []"
| "deleted_paths (DeleteFile p # cs) = p # deleted_paths cs"
| "deleted_paths (c # cs) = deleted_paths cs"

text \<open>
  The retention decision set of one cleanup pass, as the code acts on it: the paths it
  calls \<^verbatim>\<open>delete_file\<close> on.
\<close>

definition decision_set :: "'s env \<Rightarrow> command \<Rightarrow> dbcommands \<Rightarrow> 's world \<Rightarrow> string list" where
  "decision_set env self dbc w =
     deleted_paths (new_calls w (snd (cleanup_old_backups env self dbc w)))"

text \<open>
  The order of \<^verbatim>\<open>datetime\<close> values is that of their fields, most significant first;
  the lists compared all have six entries.
\<close>

definition timestamp :: "datetime \<Rightarrow> nat list" where
  "timestamp dt = [year dt, month dt, day dt, hour dt, minute dt, second dt]"

definition parsed_timestamp ::
  "'s env \<Rightarrow> command \<Rightarrow> dbcommands \<Rightarrow> string \<Rightarrow> nat list option" where
  "parsed_timestamp env self dbc filepath =
     (case parse_datetime env self dbc filepath of
        Inl e \<Rightarrow> None
      | Inr dt \<Rightarrow> Some (timestamp dt))"

text \<open>A listing whose paths all parse and arrive oldest first.\<close>

definition oldest_first :: "'s env \<Rightarrow> command \<Rightarrow> dbcommands \<Rightarrow> string list \<Rightarrow> bool" where
  "oldest_first env self dbc paths =
     (list_all (\<lambda>p. parsed_timestamp env self dbc p \<noteq> None) paths \<and>
      sorted (map (\<lambda>p. the (parsed_timestamp env self dbc p)) paths))"

subsection \<open>The transform stages\<close>

text \<open>
  Modelled from the spec: \<^verbatim>\<open>utils.compress_file\<close> and \<^verbatim>\<open>utils.encrypt_file\<close> are not
  under \<^verbatim>\<open>src/\<close>. A stage "produces a freshly allocated output stream", "appends exactly
  one well-known suffix to the filename corresponding to the stage's identity (e.g.,
  .gz, .gpg)", and "signals TransformFailed" otherwise. The transformation of the
  content \<open>tr\<close> and the suffix \<open>sfx\<close> are parameters.
\<close>

definition transform_stage ::
  "(stream \<Rightarrow> exn + stream) \<Rightarrow> string \<Rightarrow> stream \<Rightarrow> string \<Rightarrow> exn + (stream \<times> string)" where
  "transform_stage tr sfx inputfile name =
     (case tr inputfile of
        Inl e \<Rightarrow> Inl e
      | Inr outputfile \<Rightarrow> Inr (outputfile, name @ sfx))"

subsection \<open>An example installation\<close>

text \<open>
  Concrete collaborators, to run the command on: a storage backend that is a list of
  file names in the order they were written, some of them locked (writing or deleting
  a locked name raises \<open>StorageError\<close>); file names \<^verbatim>\<open><NAME>-<date>.dump\<close> with the date
  format \<^verbatim>\<open>%Y-%m-%d\<close>; a connector whose dump fails for the database \<^verbatim>\<open>broken\<close>.
\<close>

record demo_storage =
  files :: "string list"
  locked :: "string list"

definition demo_list_directory :: "demo_storage \<Rightarrow> exn + string list" where
  "demo_list_directory s = Inr (files s)"

definition demo_write_file ::
  "stream \<Rightarrow> string \<Rightarrow> demo_storage \<Rightarrow> exn option \<times> demo_storage" where
  "demo_write_file f n s =
     (if n \<in> set (locked s) then (Some (StorageError n), s)
      else (None, s\<lparr>files := removeAll n (files s) @ [n]\<rparr>))"

definition demo_delete_file :: "string \<Rightarrow> demo_storage \<Rightarrow> exn option \<times> demo_storage" where
  "demo_delete_file n s =
     (if n \<in> set (locked s) then (Some (StorageError n), s)
      else (None, s\<lparr>files := removeAll n (files s)\<rparr>))"

text \<open>The text before the first occurrence of \<open>needle\<close>: what a lazy \<^verbatim>\<open>(.*?)\<close> captures.\<close>

fun before_first :: "string \<Rightarrow> string \<Rightarrow> string option" where
  "before_first needle [] = (if needle = [] then Some [] else None)"
| "before_first needle (c # cs) =
     (if prefix needle (c # cs) then Some []
      else map_option ((#) c) (before_first needle cs))"

text \<open>\<^verbatim>\<open>re.findall(r'^<NAME>-(.*?)\.dump', path)\<close>.\<close>

definition demo_findall :: "string \<Rightarrow> string option \<Rightarrow> string \<Rightarrow> string list" where
  "demo_findall name sn p =
     (if prefix (name @ ''-'') p
      then (case before_first ''.dump'' (drop (length name + 1) p) of
              Some d \<Rightarrow> [d]
            | None \<Rightarrow> [])
      else [])"

text \<open>
  The commands of a database on the day \<open>today\<close>; \<^verbatim>\<open>filter_filepaths\<close> keeps the paths
  that contain \<^verbatim>\<open><NAME>-\<close> anywhere, as \<^verbatim>\<open>re.search\<close> does.
\<close>

definition demo_dbcommands :: "string \<Rightarrow> database \<Rightarrow> dbcommands" where
  "demo_dbcommands today db =
     \<lparr>dbc_filename = (\<lambda>sn. NAME db @ ''-'' @ today @ ''.dump''),
      filter_filepaths = filter (sublist (NAME db @ ''-'')),
      findall_filename_match = demo_findall (NAME db)\<rparr>"

definition is_digit :: "char \<Rightarrow> bool" where
  "is_digit c = (CHR ''0'' \<le> c \<and> c \<le> CHR ''9'')"

definition number :: "string \<Rightarrow> nat" where
  "number s = foldl (\<lambda>a c. 10 * a + (of_char c - 48)) 0 s"

text \<open>\<^verbatim>\<open>datetime.strptime(s, '%Y-%m-%d')\<close>, on two-digit months and days.\<close>

definition demo_strptime :: "string \<Rightarrow> exn + datetime" where
  "demo_strptime s =
     (let y = take 4 s; m = take 2 (drop 5 s); d = take 2 (drop 8 s) in
      if length s = 10 \<and> take 1 (drop 4 s) = ''-'' \<and> take 1 (drop 7 s) = ''-''
         \<and> list_all is_digit (y @ m @ d)
         \<and> 1 \<le> number m \<and> number m \<le> 12 \<and> 1 \<le> number d \<and> number d \<le> 31
      then Inr \<lparr>year = number y, month = number m, day = number d,
                hour = 0, minute = 0, second = 0\<rparr>
      else Inl (ValueError s))"

definition demo_connector :: "string \<Rightarrow> connector" where
  "demo_connector database_key =
     \<lparr>create_dump = (if database_key = ''broken'' then Inl (OtherError ''DumpFailed'')
                     else Inr (''dump of '' @ database_key))\<rparr>"

definition demo_databases :: "(string \<times> database) list" where
  "demo_databases =
     [(''db'', \<lparr>ENGINE = ''django.db.backends.sqlite3'', NAME = ''db''\<rparr>),
      (''broken'', \<lparr>ENGINE = ''django.db.backends.mysql'', NAME = ''broken''\<rparr>),
      (''logs'', \<lparr>ENGINE = ''django_mongodb_engine'', NAME = ''logs''\<rparr>)]"

text \<open>The two transformations of the content, written so that their order shows.\<close>

definition demo_gzip :: "stream \<Rightarrow> exn + stream" where
  "demo_gzip f = Inr (''gz('' @ f @ '')'')"

definition demo_gpg :: "stream \<Rightarrow> exn + stream" where
  "demo_gpg f = Inr (''gpg('' @ f @ '')'')"

text \<open>The day of the example run, as \<^verbatim>\<open>filename\<close> formats it.\<close>

definition demo_today :: string where
  "demo_today = ''2023-03-06''"

definition demo_env :: "int \<Rightarrow> demo_storage env" where
  "demo_env keep =
     \<lparr>CLEANUP_KEEP = keep,
      DBBACKUP_DATABASES = map fst demo_databases,
      SETTINGS_DATABASES = map_of demo_databases,
      strptime = demo_strptime,
      MongoDBCommands = demo_dbcommands demo_today,
      DBCommands = demo_dbcommands demo_today,
      get_connector = demo_connector,
      compress_file = transform_stage demo_gzip ''.gz'',
      encrypt_file = transform_stage demo_gpg ''.gpg'',
      list_directory = demo_list_directory,
      write_file = demo_write_file,
      delete_file = demo_delete_file,
      open_wb = (\<lambda>p. None)\<rparr>"

definition demo_options :: options where
  "demo_options =
     \<lparr>opt_verbosity = 1, opt_quiet = False, opt_clean = True, opt_database = Some ''db'',
      opt_servername = None, opt_compress = False, opt_encrypt = False,
      opt_output_filename = None, opt_output_path = None\<rparr>"

text \<open>The database \<^verbatim>\<open>db\<close> of the example, its commands and its connector.\<close>

definition demo_db :: database where
  "demo_db = \<lparr>ENGINE = ''django.db.backends.sqlite3'', NAME = ''db''\<rparr>"

definition demo_dbc :: dbcommands where
  "demo_dbc = demo_dbcommands demo_today demo_db"

definition demo_self :: "int \<Rightarrow> command" where
  "demo_self keep = command_of (demo_env keep) demo_options"

definition demo_world :: "string list \<Rightarrow> string list \<Rightarrow> demo_storage world" where
  "demo_world fs ls =
     \<lparr>storage = \<lparr>files = fs, locked = ls\<rparr>, local_files = Map.empty, calls = []\<rparr>"

text \<open>The five backups of the spec's example, and the same in another order.\<close>

definition five_backups :: "string list" where
  "five_backups =
     [''db-2023-01-01.dump'', ''db-2023-01-15.dump'', ''db-2023-02-01.dump'',
      ''db-2023-02-20.dump'', ''db-2023-03-05.dump'']"

definition newest_first :: "string list" where
  "newest_first =
     [''db-2023-03-05.dump'', ''db-2023-02-20.dump'', ''db-2023-01-15.dump'']"

text \<open>
  A listing with a stray file that \<^verbatim>\<open>filter_filepaths\<close> keeps and the anchored pattern
  does not match, and one with a date that \<^verbatim>\<open>strptime\<close> rejects.
\<close>

definition stray_listing :: "string list" where
  "stray_listing = ''a-db-2023-01-20.dump'' # five_backups"

definition bad_date_listing :: "string list" where
  "bad_date_listing =
     [''db-2023-01-01.dump'', ''db-2023-01-15.dump'', ''db-2023-01-xx.dump'',
      ''db-2023-02-20.dump'', ''db-2023-03-05.dump'']"

text \<open>
  Other command lines: no \<^verbatim>\<open>--database\<close>, so that every configured database is
  backed up; \<^verbatim>\<open>--compress --encrypt\<close>; and the same with \<^verbatim>\<open>--output-filename\<close>.
\<close>

definition all_databases :: options where
  "all_databases = demo_options\<lparr>opt_database := None\<rparr>"

definition both_stages :: options where
  "both_stages = demo_options\<lparr>opt_compress := True, opt_encrypt := True\<rparr>"

definition named_output :: options where
  "named_output = both_stages\<lparr>opt_output_filename := Some ''latest.bak''\<rparr>"

section \<open>Properties\<close>

subsection \<open>Traces\<close>

lemma calls_record_call: "calls (record_call c w) = calls w @ [c]"
  by (simp add: record_call_def)

lemma new_calls_append: "calls w' = calls w @ cs \<Longrightarrow> new_calls w w' = cs"
  by (simp add: new_calls_def)

lemma deleted_paths_append: "deleted_paths (cs @ ds) = deleted_paths cs @ deleted_paths ds"
  by (induction cs rule: deleted_paths.induct) simp_all

lemma deleted_paths_map: "deleted_paths (map DeleteFile ps) = ps"
  by (induction ps) simp_all

lemma storage_delete_file_calls:
  "calls (snd (storage_delete_file env p w)) = calls w @ [DeleteFile p]"
  by (simp add: storage_delete_file_def calls_record_call split: prod.splits)

lemma storage_write_file_calls:
  "calls (snd (storage_write_file env f n w)) = calls w @ [WriteFile f n]"
  by (simp add: storage_write_file_def calls_record_call split: prod.splits)

lemma write_local_file_calls:
  "calls (snd (write_local_file env f p w)) = calls w @ [WriteLocalFile f p]"
  by (simp add: write_local_file_def Let_def calls_record_call split: option.splits)

text \<open>The loop deletes only paths it was given, parsed, and found not on a first day.\<close>

lemma cleanup_loop_trace:
  "\<exists>ps. calls (snd (cleanup_loop env self dbc xs w)) = calls w @ map DeleteFile ps \<and>
        set ps \<subseteq> {p \<in> set xs. \<exists>dt. parse_datetime env self dbc p = Inr dt \<and> day dt \<noteq> 1}"
proof (induction xs arbitrary: w)
  case Nil
  show ?case by simp
next
  case (Cons x xs)
  show ?case
  proof (cases "parse_datetime env self dbc x")
    case (Inl e)
    then show ?thesis by simp
  next
    case (Inr dt)
    show ?thesis
    proof (cases "day dt = 1")
      case True
      from Cons.IH [of w] obtain ps where
        ps: "calls (snd (cleanup_loop env self dbc xs w)) = calls w @ map DeleteFile ps"
          "set ps \<subseteq> {p \<in> set xs. \<exists>dt. parse_datetime env self dbc p = Inr dt \<and> day dt \<noteq> 1}"
        by blast
      have "cleanup_loop env self dbc (x # xs) w = cleanup_loop env self dbc xs w"
        using Inr True by simp
      with ps show ?thesis by auto
    next
      case False
      obtain r w1 where del: "storage_delete_file env x w = (r, w1)"
        by (cases "storage_delete_file env x w")
      have w1: "calls w1 = calls w @ [DeleteFile x]"
        using storage_delete_file_calls [of env x w] del by simp
      show ?thesis
      proof (cases r)
        case (Some e)
        have "cleanup_loop env self dbc (x # xs) w = (Some e, w1)"
          using Inr False del Some by simp
        then have "calls (snd (cleanup_loop env self dbc (x # xs) w)) = calls w @ map DeleteFile [x]"
          using w1 by simp
        moreover have "set [x] \<subseteq> {p \<in> set (x # xs). \<exists>dt. parse_datetime env self dbc p = Inr dt \<and> day dt \<noteq> 1}"
          using Inr False by simp
        ultimately show ?thesis by blast
      next
        case None
        from Cons.IH [of w1] obtain ps where
          ps: "calls (snd (cleanup_loop env self dbc xs w1)) = calls w1 @ map DeleteFile ps"
            "set ps \<subseteq> {p \<in> set xs. \<exists>dt. parse_datetime env self dbc p = Inr dt \<and> day dt \<noteq> 1}"
          by blast
        have "cleanup_loop env self dbc (x # xs) w = cleanup_loop env self dbc xs w1"
          using Inr False del None by simp
        then have "calls (snd (cleanup_loop env self dbc (x # xs) w)) = calls w @ map DeleteFile (x # ps)"
          using ps(1) w1 by simp
        moreover have "set (x # ps) \<subseteq> {p \<in> set (x # xs). \<exists>dt. parse_datetime env self dbc p = Inr dt \<and> day dt \<noteq> 1}"
          using ps(2) Inr False by auto
        ultimately show ?thesis by blast
      qed
    qed
  qed
qed

lemma cleanup_loop_append:
  "cleanup_loop env self dbc (xs @ ys) w =
     (case cleanup_loop env self dbc xs w of
        (Some e, w') \<Rightarrow> (Some e, w')
      | (None, w') \<Rightarrow> cleanup_loop env self dbc ys w')"
  by (induction xs arbitrary: w) (auto split: sum.splits prod.splits option.splits)

lemma handle_loop_append:
  "handle_loop env self (xs @ ys) w =
     (case handle_loop env self xs w of
        (Some e, w') \<Rightarrow> (Some e, w')
      | (None, w') \<Rightarrow> handle_loop env self ys w')"
  by (induction xs arbitrary: w) (auto split: prod.splits option.splits)

text \<open>What one cleanup pass adds to the trace.\<close>

lemma cleanup_old_backups_trace:
  "\<exists>ps. calls (snd (cleanup_old_backups env self dbc w)) = calls w @ ListDirectory # map DeleteFile ps \<and>
        (\<forall>listing. list_directory env (storage w) = Inr listing \<longrightarrow>
           set ps \<subseteq> {p \<in> set (candidates self dbc listing).
                        \<exists>dt. parse_datetime env self dbc p = Inr dt \<and> day dt \<noteq> 1}) \<and>
        (\<forall>e. list_directory env (storage w) = Inl e \<longrightarrow> ps = [])"
proof (cases "list_directory env (storage w)")
  case (Inl e)
  then have "calls (snd (cleanup_old_backups env self dbc w)) = calls w @ ListDirectory # map DeleteFile []"
    by (simp add: cleanup_old_backups_def storage_list_directory_def calls_record_call)
  with Inl show ?thesis by auto
next
  case (Inr listing)
  from cleanup_loop_trace [of env self dbc "candidates self dbc listing" "record_call ListDirectory w"]
  obtain ps where ps:
    "calls (snd (cleanup_loop env self dbc (candidates self dbc listing) (record_call ListDirectory w)))
       = calls (record_call ListDirectory w) @ map DeleteFile ps"
    "set ps \<subseteq> {p \<in> set (candidates self dbc listing).
                  \<exists>dt. parse_datetime env self dbc p = Inr dt \<and> day dt \<noteq> 1}"
    by blast
  have "calls (snd (cleanup_old_backups env self dbc w)) = calls w @ ListDirectory # map DeleteFile ps"
    using Inr ps(1) by (simp add: cleanup_old_backups_def storage_list_directory_def calls_record_call)
  with ps(2) Inr show ?thesis by auto
qed

lemma decision_set_subset:
  assumes "list_directory env (storage w) = Inr listing"
  shows "set (decision_set env self dbc w) \<subseteq>
           {p \<in> set (candidates self dbc listing).
              \<exists>dt. parse_datetime env self dbc p = Inr dt \<and> day dt \<noteq> 1}"
proof -
  from cleanup_old_backups_trace [of env self dbc w] obtain ps where
    ps: "calls (snd (cleanup_old_backups env self dbc w)) = calls w @ ListDirectory # map DeleteFile ps"
      "set ps \<subseteq> {p \<in> set (candidates self dbc listing).
                  \<exists>dt. parse_datetime env self dbc p = Inr dt \<and> day dt \<noteq> 1}"
    using assms by blast
  have "decision_set env self dbc w = ps"
    using new_calls_append [OF ps(1)] by (simp add: decision_set_def deleted_paths_map)
  with ps(2) show ?thesis by simp
qed

lemma decision_set_list_error:
  assumes "list_directory env (storage w) = Inl e"
  shows "decision_set env self dbc w = []"
proof -
  from cleanup_old_backups_trace [of env self dbc w] obtain ps where
    ps: "calls (snd (cleanup_old_backups env self dbc w)) = calls w @ ListDirectory # map DeleteFile ps"
      "ps = []"
    using assms by blast
  show ?thesis
    using new_calls_append [OF ps(1)] ps(2) by (simp add: decision_set_def)
qed

subsection \<open>The slice \<^verbatim>\<open>filepaths[0:-self.clean_keep]\<close>\<close>

lemma slice_to_keep:
  assumes "1 \<le> k"
  shows "slice_to xs (- k) = take (length xs - nat k) xs"
proof -
  have "nat (max (- k + int (length xs)) 0) = length xs - nat k"
    using assms by linarith
  then show ?thesis
    using assms by (simp add: slice_to_def Let_def)
qed

lemma slice_to_zero: "slice_to xs 0 = []"
  by (simp add: slice_to_def)

lemma candidates_keep:
  "1 \<le> clean_keep self \<Longrightarrow>
   candidates self dbc listing =
     sort (take (length (filter_filepaths dbc listing) - nat (clean_keep self))
             (filter_filepaths dbc listing))"
  by (simp add: candidates_def slice_to_keep)

text \<open>Producing the artifact calls the connector and the stages only.\<close>

lemma backup_artifact_trace:
  "\<exists>cs. calls (snd (backup_artifact env self dbc conn w)) = calls w @ cs \<and>
        deleted_paths cs = [] \<and> ListDirectory \<notin> set cs"
proof -
  let ?n = "dbc_filename dbc (servername self)"
  have "\<exists>cs. calls (snd (backup_artifact env self dbc conn w)) = calls w @ cs \<and>
          set cs \<subseteq> {CreateDump} \<union> range CompressFile \<union> range EncryptFile"
    by (auto simp add: backup_artifact_def Let_def calls_record_call
        split: sum.splits prod.splits if_splits)
  then obtain cs where cs: "calls (snd (backup_artifact env self dbc conn w)) = calls w @ cs"
    "set cs \<subseteq> {CreateDump} \<union> range CompressFile \<union> range EncryptFile"
    by blast
  have "deleted_paths cs = []" using cs(2)
    by (induction cs rule: deleted_paths.induct) auto
  moreover have "ListDirectory \<notin> set cs" using cs(2) by auto
  ultimately show ?thesis using cs(1) by blast
qed

lemma save_new_backup_trace:
  "\<exists>cs. calls (snd (save_new_backup env self dbc conn w)) = calls w @ cs \<and>
        deleted_paths cs = [] \<and> ListDirectory \<notin> set cs"
proof -
  obtain r w1 where art: "backup_artifact env self dbc conn w = (r, w1)"
    by (cases "backup_artifact env self dbc conn w")
  from backup_artifact_trace [of env self dbc conn w] art
  obtain cs where cs: "calls w1 = calls w @ cs" "deleted_paths cs = []" "ListDirectory \<notin> set cs"
    by auto
  show ?thesis
  proof (cases r)
    case (Inl e)
    then have "save_new_backup env self dbc conn w = (Some e, w1)"
      using art by (simp add: save_new_backup_def)
    with cs show ?thesis by auto
  next
    case (Inr a)
    obtain f n where a: "a = (f, n)" by (cases a)
    show ?thesis
    proof (cases "path self")
      case None
      then have "save_new_backup env self dbc conn w = storage_write_file env f n w1"
        using art Inr a by (simp add: save_new_backup_def)
      then have "calls (snd (save_new_backup env self dbc conn w)) = calls w @ (cs @ [WriteFile f n])"
        using cs(1) by (simp add: storage_write_file_calls)
      moreover have "deleted_paths (cs @ [WriteFile f n]) = []"
        using cs(2) by (simp add: deleted_paths_append)
      moreover have "ListDirectory \<notin> set (cs @ [WriteFile f n])"
        using cs(3) by simp
      ultimately show ?thesis by blast
    next
      case (Some p)
      then have "save_new_backup env self dbc conn w = write_local_file env f p w1"
        using art Inr a by (simp add: save_new_backup_def)
      then have "calls (snd (save_new_backup env self dbc conn w)) = calls w @ (cs @ [WriteLocalFile f p])"
        using cs(1) by (simp add: write_local_file_calls)
      moreover have "deleted_paths (cs @ [WriteLocalFile f p]) = []"
        using cs(2) by (simp add: deleted_paths_append)
      moreover have "ListDirectory \<notin> set (cs @ [WriteLocalFile f p])"
        using cs(3) by simp
      ultimately show ?thesis by blast
    qed
  qed
qed

text \<open>With a keep count of 0 the slice is empty and the pass deletes nothing.\<close>

lemma cleanup_keep_zero_trace:
  assumes "clean_keep self = 0"
  shows "calls (snd (cleanup_old_backups env self dbc w)) = calls w @ [ListDirectory]"
proof -
  have "candidates self dbc listing = []" for listing
    using assms by (simp add: candidates_def slice_to_zero)
  then show ?thesis
    by (simp add: cleanup_old_backups_def storage_list_directory_def calls_record_call
        split: sum.splits)
qed

lemma try_body_keep_zero_trace:
  assumes "clean_keep self = 0"
  shows "\<exists>cs. calls (snd (try_body env self dbc conn w)) = calls w @ cs \<and> deleted_paths cs = []"
proof -
  obtain r w1 where save: "save_new_backup env self dbc conn w = (r, w1)"
    by (cases "save_new_backup env self dbc conn w")
  from save_new_backup_trace [of env self dbc conn w] save
  obtain cs where cs: "calls w1 = calls w @ cs" "deleted_paths cs = []"
    by auto
  show ?thesis
  proof (cases "r = None \<and> clean self")
    case True
    then have "try_body env self dbc conn w = cleanup_old_backups env self dbc w1"
      using save by (simp add: try_body_def)
    then have "calls (snd (try_body env self dbc conn w)) = calls w @ (cs @ [ListDirectory])"
      using cleanup_keep_zero_trace [OF assms, of env dbc w1] cs(1) by simp
    moreover have "deleted_paths (cs @ [ListDirectory]) = []"
      using cs(2) by (simp add: deleted_paths_append)
    ultimately show ?thesis by blast
  next
    case False
    then have "try_body env self dbc conn w = (r, w1)"
      using save by (cases r) (auto simp add: try_body_def)
    with cs show ?thesis by auto
  qed
qed

lemma handle_database_keep_zero_trace:
  assumes "clean_keep self = 0"
  shows "\<exists>cs. calls (snd (handle_database env self k w)) = calls w @ cs \<and> deleted_paths cs = []"
proof (cases "SETTINGS_DATABASES env k")
  case None
  then have "calls (snd (handle_database env self k w)) = calls w @ []"
    by (simp add: handle_database_def)
  then show ?thesis by force
next
  case (Some db)
  from try_body_keep_zero_trace [OF assms, of env "dbcommands_of env db" "get_connector env k" w]
  obtain cs where cs:
    "calls (snd (try_body env self (dbcommands_of env db) (get_connector env k) w)) = calls w @ cs"
    "deleted_paths cs = []"
    by blast
  have "snd (handle_database env self k w) =
          snd (try_body env self (dbcommands_of env db) (get_connector env k) w)"
    using Some by (simp add: handle_database_def split: prod.splits option.splits)
  with cs show ?thesis by auto
qed

lemma handle_loop_keep_zero_trace:
  assumes "clean_keep self = 0"
  shows "\<exists>cs. calls (snd (handle_loop env self ks w)) = calls w @ cs \<and> deleted_paths cs = []"
proof (induction ks arbitrary: w)
  case Nil
  have "calls (snd (handle_loop env self [] w)) = calls w @ []" by simp
  then show ?case by force
next
  case (Cons k ks)
  obtain r w1 where one: "handle_database env self k w = (r, w1)"
    by (cases "handle_database env self k w")
  from handle_database_keep_zero_trace [OF assms, of env k w] one
  obtain cs where cs: "calls w1 = calls w @ cs" "deleted_paths cs = []"
    by auto
  show ?case
  proof (cases r)
    case (Some e)
    then have "handle_loop env self (k # ks) w = (Some e, w1)"
      using one by simp
    with cs show ?thesis by auto
  next
    case None
    from Cons.IH [of w1] obtain ds where
      ds: "calls (snd (handle_loop env self ks w1)) = calls w1 @ ds" "deleted_paths ds = []"
      by blast
    have "handle_loop env self (k # ks) w = handle_loop env self ks w1"
      using one None by simp
    then have "calls (snd (handle_loop env self (k # ks) w)) = calls w @ (cs @ ds)"
      using ds(1) cs(1) by simp
    moreover have "deleted_paths (cs @ ds) = []"
      using cs(2) ds(2) by (simp add: deleted_paths_append)
    ultimately show ?thesis by blast
  qed
qed

subsection \<open>The cleanup pass\<close>

text \<open>
  Claim C1, as amended: the claim holds for a listing that arrives oldest first. For a
  keep count \<open>K \<ge> 1\<close> and recognized paths that are distinct and arrive in ascending
  order of parsed timestamp, the candidates are the recognized paths sorted by
  timestamp, without the last \<open>K\<close> (the loop then visits them in the order of their
  names); those last \<open>K\<close> are at least as recent as every candidate, and none of them
  is in the decision set.
\<close>

theorem protected_tail_is_most_recent:
  assumes "1 \<le> clean_keep self"
    and "list_directory env (storage w) = Inr listing"
    and "distinct (filter_filepaths dbc listing)"
    and "oldest_first env self dbc (filter_filepaths dbc listing)"
  shows "(let ts = (\<lambda>p. the (parsed_timestamp env self dbc p));
              by_age = sort_key ts (filter_filepaths dbc listing);
              cut = length by_age - nat (clean_keep self);
              newest = drop cut by_age
          in candidates self dbc listing = sort (take cut by_age) \<and>
             (\<forall>p \<in> set (take cut by_age). \<forall>q \<in> set newest. ts p \<le> ts q) \<and>
             set (decision_set env self dbc w) \<inter> set newest = {})"
proof -
  define ts where "ts = (\<lambda>p. the (parsed_timestamp env self dbc p))"
  define recognized where "recognized = filter_filepaths dbc listing"
  define cut where "cut = length recognized - nat (clean_keep self)"
  have asc: "sorted (map ts recognized)"
    using assms(4) by (simp add: oldest_first_def ts_def recognized_def)
  then have by_age: "sort_key ts recognized = recognized"
    by (rule sort_key_id_if_sorted)
  have cand: "candidates self dbc listing = sort (take cut recognized)"
    using assms(1) by (simp add: candidates_keep recognized_def cut_def)
  have sub: "set (decision_set env self dbc w) \<subseteq> set (take cut recognized)"
    using decision_set_subset [OF assms(2), of self dbc] cand by auto
  have "distinct (take cut recognized @ drop cut recognized)"
    using assms(3) by (simp add: recognized_def)
  then have "set (take cut recognized) \<inter> set (drop cut recognized) = {}"
    by (simp only: distinct_append)
  with sub have disj: "set (decision_set env self dbc w) \<inter> set (drop cut recognized) = {}"
    by blast
  have "sorted (map ts (take cut recognized @ drop cut recognized))"
    using asc by simp
  then have newer: "\<forall>p \<in> set (take cut recognized). \<forall>q \<in> set (drop cut recognized). ts p \<le> ts q"
    by (simp only: map_append sorted_append set_map) blast
  show ?thesis
    unfolding Let_def ts_def [symmetric] recognized_def [symmetric] by_age cut_def [symmetric]
    using cand disj newer by blast
qed

theorem protected_tail_is_most_recent_witness:
  "1 \<le> clean_keep (demo_self 2) \<and>
   distinct (filter_filepaths demo_dbc five_backups) \<and>
   oldest_first (demo_env 2) (demo_self 2) demo_dbc (filter_filepaths demo_dbc five_backups) \<and>
   candidates (demo_self 2) demo_dbc five_backups =
     [''db-2023-01-01.dump'', ''db-2023-01-15.dump'', ''db-2023-02-01.dump''] \<and>
   set (decision_set (demo_env 2) (demo_self 2) demo_dbc (demo_world five_backups []))
     \<inter> set [''db-2023-02-20.dump'', ''db-2023-03-05.dump''] = {} \<and>
   ''db-2023-01-15.dump'' \<in>
     set (decision_set (demo_env 2) (demo_self 2) demo_dbc (demo_world five_backups []))"
proof -
  let ?r = "filter_filepaths demo_dbc five_backups"
  let ?ts = "\<lambda>p. the (parsed_timestamp (demo_env 2) (demo_self 2) demo_dbc p)"
  let ?d = "decision_set (demo_env 2) (demo_self 2) demo_dbc (demo_world five_backups [])"
  let ?cut = "length (sort_key ?ts ?r) - nat (clean_keep (demo_self 2))"
  have keep: "1 \<le> clean_keep (demo_self 2)"
    by code_simp
  have listing: "list_directory (demo_env 2) (storage (demo_world five_backups [])) = Inr five_backups"
    by code_simp
  have dist: "distinct ?r"
    by code_simp
  have old: "oldest_first (demo_env 2) (demo_self 2) demo_dbc ?r"
    by code_simp
  have newest: "drop ?cut (sort_key ?ts ?r) = [''db-2023-02-20.dump'', ''db-2023-03-05.dump'']"
    by code_simp
  have older: "sort (take ?cut (sort_key ?ts ?r)) =
      [''db-2023-01-01.dump'', ''db-2023-01-15.dump'', ''db-2023-02-01.dump'']"
    by code_simp
  have del: "''db-2023-01-15.dump'' \<in> set ?d"
    by code_simp
  have all: "candidates (demo_self 2) demo_dbc five_backups = sort (take ?cut (sort_key ?ts ?r)) \<and>
      (\<forall>p \<in> set (take ?cut (sort_key ?ts ?r)). \<forall>q \<in> set (drop ?cut (sort_key ?ts ?r)).
         ?ts p \<le> ?ts q) \<and>
      set ?d \<inter> set (drop ?cut (sort_key ?ts ?r)) = {}"
    by (rule protected_tail_is_most_recent [OF keep listing dist old, unfolded Let_def])
  from all older have c1: "candidates (demo_self 2) demo_dbc five_backups =
      [''db-2023-01-01.dump'', ''db-2023-01-15.dump'', ''db-2023-02-01.dump'']"
    by (simp only:)
  from all newest have c2: "set ?d \<inter> set [''db-2023-02-20.dump'', ''db-2023-03-05.dump''] = {}"
    by (simp only:)
  from keep dist old c1 c2 del show ?thesis by blast
qed

text \<open>
  The claim as written fails on a listing that arrives newest first: with \<open>K = 1\<close> the
  entry protected is the last one listed, the oldest, and the most recent backup is
  deleted.
\<close>

theorem newest_backup_deleted_counterexample:
  "decision_set (demo_env 1) (demo_self 1) demo_dbc (demo_world newest_first []) =
     [''db-2023-02-20.dump'', ''db-2023-03-05.dump''] \<and>
   the (parsed_timestamp (demo_env 1) (demo_self 1) demo_dbc ''db-2023-01-15.dump'')
     < the (parsed_timestamp (demo_env 1) (demo_self 1) demo_dbc ''db-2023-03-05.dump'') \<and>
   the (parsed_timestamp (demo_env 1) (demo_self 1) demo_dbc ''db-2023-02-20.dump'')
     < the (parsed_timestamp (demo_env 1) (demo_self 1) demo_dbc ''db-2023-03-05.dump'')"
  by code_simp

text \<open>
  Claim C6. A path whose parsed date is the first day of a month is never in the
  decision set of a cleanup pass, wherever it stands in the listing.
\<close>

theorem first_of_month_never_deleted:
  assumes "parse_datetime env self dbc p = Inr dt" and "day dt = 1"
  shows "p \<notin> set (decision_set env self dbc w)"
proof (cases "list_directory env (storage w)")
  case (Inl e)
  then show ?thesis by (simp add: decision_set_list_error)
next
  case (Inr listing)
  show ?thesis
  proof
    assume "p \<in> set (decision_set env self dbc w)"
    with decision_set_subset [OF Inr, of self dbc]
    obtain dt' where "parse_datetime env self dbc p = Inr dt'" and "day dt' \<noteq> 1"
      by blast
    with assms show False by simp
  qed
qed

theorem first_of_month_never_deleted_witness:
  "parse_datetime (demo_env 1) (demo_self 1) demo_dbc ''db-2023-02-01.dump'' =
     Inr \<lparr>year = 2023, month = 2, day = 1, hour = 0, minute = 0, second = 0\<rparr> \<and>
   ''db-2023-02-01.dump'' \<in> set (candidates (demo_self 1) demo_dbc five_backups) \<and>
   ''db-2023-02-01.dump'' \<notin>
     set (decision_set (demo_env 1) (demo_self 1) demo_dbc (demo_world five_backups []))"
proof -
  have parsed: "parse_datetime (demo_env 1) (demo_self 1) demo_dbc ''db-2023-02-01.dump'' =
      Inr \<lparr>year = 2023, month = 2, day = 1, hour = 0, minute = 0, second = 0\<rparr>"
    by code_simp
  have first: "day \<lparr>year = 2023, month = 2, day = 1, hour = 0, minute = 0, second = 0\<rparr> = 1"
    by simp
  have cand: "''db-2023-02-01.dump'' \<in> set (candidates (demo_self 1) demo_dbc five_backups)"
    by code_simp
  show ?thesis
    using first_of_month_never_deleted [OF parsed first] parsed cand by blast
qed

text \<open>
  Claim C7. With a keep count \<open>K \<ge> 1\<close> and at most \<open>K\<close> recognized backups in the
  listing, the cleanup pass lists the directory and does nothing else: the decision set
  is empty.
\<close>

theorem keep_count_honoured:
  assumes "1 \<le> clean_keep self"
    and "list_directory env (storage w) = Inr listing"
    and "int (length (filter_filepaths dbc listing)) \<le> clean_keep self"
  shows "cleanup_old_backups env self dbc w = (None, record_call ListDirectory w) \<and>
         decision_set env self dbc w = []"
proof -
  have "length (filter_filepaths dbc listing) - nat (clean_keep self) = 0"
    using assms(3) by linarith
  then have empty: "candidates self dbc listing = []"
    using assms(1) by (simp add: candidates_keep)
  have run: "cleanup_old_backups env self dbc w = (None, record_call ListDirectory w)"
    using assms(2) empty by (simp add: cleanup_old_backups_def storage_list_directory_def)
  have "new_calls w (record_call ListDirectory w) = [ListDirectory]"
    by (simp add: new_calls_def calls_record_call)
  then have "decision_set env self dbc w = []"
    using run by (simp add: decision_set_def)
  with run show ?thesis by simp
qed

theorem keep_count_honoured_witness:
  "1 \<le> clean_keep (demo_self 5) \<and>
   int (length (filter_filepaths demo_dbc five_backups)) \<le> clean_keep (demo_self 5) \<and>
   fst (cleanup_old_backups (demo_env 5) (demo_self 5) demo_dbc (demo_world five_backups [])) = None \<and>
   decision_set (demo_env 5) (demo_self 5) demo_dbc (demo_world five_backups []) = []"
proof -
  have keep: "1 \<le> clean_keep (demo_self 5)"
    by code_simp
  have listing: "list_directory (demo_env 5) (storage (demo_world five_backups [])) = Inr five_backups"
    by code_simp
  have few: "int (length (filter_filepaths demo_dbc five_backups)) \<le> clean_keep (demo_self 5)"
    by code_simp
  show ?thesis
    using keep_count_honoured [OF keep listing few] keep few by simp
qed

text \<open>
  Claim C2, as amended. The loop has no handler: a candidate whose date cannot be parsed
  (\<^verbatim>\<open>findall\<close> finds nothing, so \<^verbatim>\<open>[0]\<close> raises \<open>IndexError\<close>, or \<^verbatim>\<open>strptime\<close>
  raises) ends the cleanup pass with that exception. The candidates sorted before it
  have been handled, the entry itself and the candidates after it are not deleted, and
  nothing is reported but the exception.
\<close>

theorem parse_failure_aborts_cleanup:
  assumes "list_directory env (storage w) = Inr listing"
    and "candidates self dbc listing = before @ p # after"
    and "fst (cleanup_loop env self dbc before (record_call ListDirectory w)) = None"
    and "parse_datetime env self dbc p = Inl e"
  shows "cleanup_old_backups env self dbc w =
           (Some e, snd (cleanup_loop env self dbc before (record_call ListDirectory w))) \<and>
         set (decision_set env self dbc w) \<subseteq> set before"
proof -
  let ?w0 = "record_call ListDirectory w"
  obtain w1 where pre: "cleanup_loop env self dbc before ?w0 = (None, w1)"
    using assms(3) by (cases "cleanup_loop env self dbc before ?w0") simp
  have "cleanup_loop env self dbc (before @ p # after) ?w0 = (Some e, w1)"
    using pre assms(4) by (simp add: cleanup_loop_append)
  then have run: "cleanup_old_backups env self dbc w = (Some e, w1)"
    using assms(1,2) by (simp add: cleanup_old_backups_def storage_list_directory_def)
  from cleanup_loop_trace [of env self dbc before ?w0] pre
  obtain ps where ps: "calls w1 = calls ?w0 @ map DeleteFile ps" "set ps \<subseteq> set before"
    by auto
  have "calls w1 = calls w @ ListDirectory # map DeleteFile ps"
    using ps(1) by (simp add: calls_record_call)
  then have "decision_set env self dbc w = ps"
    using run new_calls_append [of w1 w "ListDirectory # map DeleteFile ps"]
    by (simp add: decision_set_def deleted_paths_map)
  with run pre ps(2) show ?thesis by simp
qed

theorem parse_failure_aborts_cleanup_witness:
  "candidates (demo_self 1) demo_dbc bad_date_listing =
     [''db-2023-01-01.dump'', ''db-2023-01-15.dump''] @ ''db-2023-01-xx.dump'' #
     [''db-2023-02-20.dump''] \<and>
   parse_datetime (demo_env 1) (demo_self 1) demo_dbc ''db-2023-01-xx.dump'' =
     Inl (ValueError ''2023-01-xx'') \<and>
   fst (cleanup_old_backups (demo_env 1) (demo_self 1) demo_dbc (demo_world bad_date_listing []))
     = Some (ValueError ''2023-01-xx'') \<and>
   set (decision_set (demo_env 1) (demo_self 1) demo_dbc (demo_world bad_date_listing []))
     \<subseteq> set [''db-2023-01-01.dump'', ''db-2023-01-15.dump'']"
proof -
  let ?w = "demo_world bad_date_listing []"
  have listing: "list_directory (demo_env 1) (storage ?w) = Inr bad_date_listing"
    by code_simp
  have cand: "candidates (demo_self 1) demo_dbc bad_date_listing =
      [''db-2023-01-01.dump'', ''db-2023-01-15.dump''] @ ''db-2023-01-xx.dump'' #
      [''db-2023-02-20.dump'']"
    by code_simp
  have pre: "fst (cleanup_loop (demo_env 1) (demo_self 1) demo_dbc
      [''db-2023-01-01.dump'', ''db-2023-01-15.dump''] (record_call ListDirectory ?w)) = None"
    by code_simp
  have bad: "parse_datetime (demo_env 1) (demo_self 1) demo_dbc ''db-2023-01-xx.dump'' =
      Inl (ValueError ''2023-01-xx'')"
    by code_simp
  show ?thesis
    using parse_failure_aborts_cleanup [OF listing cand pre bad] cand bad by simp
qed

text \<open>
  The claim as written fails on a listing with one stray file: the pass ends with
  \<open>IndexError\<close> on it and deletes nothing, although \<^verbatim>\<open>db-2023-01-15.dump\<close> is a valid
  candidate that is not on a first day.
\<close>

theorem stray_file_aborts_cleanup_counterexample:
  "fst (cleanup_old_backups (demo_env 1) (demo_self 1) demo_dbc (demo_world stray_listing []))
     = Some IndexError \<and>
   decision_set (demo_env 1) (demo_self 1) demo_dbc (demo_world stray_listing []) = [] \<and>
   candidates (demo_self 1) demo_dbc stray_listing =
     [''a-db-2023-01-20.dump'', ''db-2023-01-01.dump'', ''db-2023-01-15.dump'',
      ''db-2023-02-01.dump'', ''db-2023-02-20.dump''] \<and>
   parse_datetime (demo_env 1) (demo_self 1) demo_dbc ''db-2023-01-15.dump'' =
     Inr \<lparr>year = 2023, month = 1, day = 15, hour = 0, minute = 0, second = 0\<rparr>"
  by code_simp

text \<open>
  Claim C5, as amended. A \<^verbatim>\<open>delete_file\<close> that raises ends the cleanup pass with that
  exception: the candidates after the failing one are not attempted, and the decision
  set acted on is what was deleted before, and the failing entry.
\<close>

theorem delete_failure_aborts_cleanup:
  assumes "list_directory env (storage w) = Inr listing"
    and "candidates self dbc listing = before @ p # after"
    and "fst (cleanup_loop env self dbc before (record_call ListDirectory w)) = None"
    and "parse_datetime env self dbc p = Inr dt" and "day dt \<noteq> 1"
    and "fst (storage_delete_file env p
                (snd (cleanup_loop env self dbc before (record_call ListDirectory w)))) = Some e"
  shows "cleanup_old_backups env self dbc w =
           (Some e, snd (storage_delete_file env p
                           (snd (cleanup_loop env self dbc before (record_call ListDirectory w))))) \<and>
         set (decision_set env self dbc w) \<subseteq> set before \<union> {p}"
proof -
  let ?w0 = "record_call ListDirectory w"
  obtain w1 where pre: "cleanup_loop env self dbc before ?w0 = (None, w1)"
    using assms(3) by (cases "cleanup_loop env self dbc before ?w0") simp
  obtain w2 where del: "storage_delete_file env p w1 = (Some e, w2)"
    using assms(6) pre by (cases "storage_delete_file env p w1") simp
  have "cleanup_loop env self dbc (before @ p # after) ?w0 = (Some e, w2)"
    using pre del assms(4,5) by (simp add: cleanup_loop_append)
  then have run: "cleanup_old_backups env self dbc w = (Some e, w2)"
    using assms(1,2) by (simp add: cleanup_old_backups_def storage_list_directory_def)
  from cleanup_loop_trace [of env self dbc before ?w0] pre
  obtain ps where ps: "calls w1 = calls ?w0 @ map DeleteFile ps" "set ps \<subseteq> set before"
    by auto
  have "calls w2 = calls w1 @ [DeleteFile p]"
    using storage_delete_file_calls [of env p w1] del by simp
  then have "calls w2 = calls w @ ListDirectory # map DeleteFile (ps @ [p])"
    using ps(1) by (simp add: calls_record_call)
  then have "decision_set env self dbc w = ps @ [p]"
    using run new_calls_append [of w2 w "ListDirectory # map DeleteFile (ps @ [p])"]
    by (simp add: decision_set_def deleted_paths_map del: map_append)
  with run pre del ps(2) show ?thesis by auto
qed

theorem delete_failure_aborts_cleanup_witness:
  "fst (cleanup_old_backups (demo_env 1) (demo_self 1) demo_dbc
          (demo_world five_backups [''db-2023-01-15.dump'']))
     = Some (StorageError ''db-2023-01-15.dump'') \<and>
   set (decision_set (demo_env 1) (demo_self 1) demo_dbc
          (demo_world five_backups [''db-2023-01-15.dump'']))
     \<subseteq> set [''db-2023-01-01.dump''] \<union> {''db-2023-01-15.dump''}"
proof -
  let ?w = "demo_world five_backups [''db-2023-01-15.dump'']"
  have listing: "list_directory (demo_env 1) (storage ?w) = Inr five_backups"
    by code_simp
  have cand: "candidates (demo_self 1) demo_dbc five_backups =
      [''db-2023-01-01.dump''] @ ''db-2023-01-15.dump'' #
      [''db-2023-02-01.dump'', ''db-2023-02-20.dump'']"
    by code_simp
  have pre: "fst (cleanup_loop (demo_env 1) (demo_self 1) demo_dbc
      [''db-2023-01-01.dump''] (record_call ListDirectory ?w)) = None"
    by code_simp
  have parsed: "parse_datetime (demo_env 1) (demo_self 1) demo_dbc ''db-2023-01-15.dump'' =
      Inr \<lparr>year = 2023, month = 1, day = 15, hour = 0, minute = 0, second = 0\<rparr>"
    by code_simp
  have later: "day \<lparr>year = 2023, month = 1, day = 15, hour = 0, minute = 0, second = 0\<rparr> \<noteq> 1"
    by simp
  have fails: "fst (storage_delete_file (demo_env 1) ''db-2023-01-15.dump''
      (snd (cleanup_loop (demo_env 1) (demo_self 1) demo_dbc
         [''db-2023-01-01.dump''] (record_call ListDirectory ?w))))
      = Some (StorageError ''db-2023-01-15.dump'')"
    by code_simp
  show ?thesis
    using delete_failure_aborts_cleanup [OF listing cand pre parsed later fails] by simp
qed

text \<open>
  The claim as written fails when the deletion of \<^verbatim>\<open>db-2023-01-15.dump\<close> raises: the
  trace ends there, and \<^verbatim>\<open>db-2023-02-20.dump\<close>, a candidate not on a first day, is
  never attempted.
\<close>

theorem delete_failure_skips_rest_counterexample:
  "fst (cleanup_old_backups (demo_env 1) (demo_self 1) demo_dbc
          (demo_world five_backups [''db-2023-01-15.dump'']))
     = Some (StorageError ''db-2023-01-15.dump'') \<and>
   calls (snd (cleanup_old_backups (demo_env 1) (demo_self 1) demo_dbc
          (demo_world five_backups [''db-2023-01-15.dump''])))
     = [ListDirectory, DeleteFile ''db-2023-01-15.dump''] \<and>
   candidates (demo_self 1) demo_dbc five_backups =
     [''db-2023-01-01.dump'', ''db-2023-01-15.dump'', ''db-2023-02-01.dump'',
      ''db-2023-02-20.dump''] \<and>
   parse_datetime (demo_env 1) (demo_self 1) demo_dbc ''db-2023-02-20.dump'' =
     Inr \<lparr>year = 2023, month = 2, day = 20, hour = 0, minute = 0, second = 0\<rparr>"
  by code_simp

subsection \<open>The run over the databases\<close>

text \<open>
  Claim C3, as amended. An exception in the \<^verbatim>\<open>try\<close> body of one database ends the
  whole run there: the world is the one that database's turn left, the databases
  configured after it are not visited, and the run raises that one exception, a
  \<open>StorageError\<close> wrapped in \<open>CommandError\<close> and any other unchanged.
\<close>

theorem failing_database_ends_run:
  assumes "database_keys env (command_of env opts) = before @ k # after"
    and "fst (handle_loop env (command_of env opts) before w) = None"
    and "SETTINGS_DATABASES env k = Some db"
    and "fst (try_body env (command_of env opts) (dbcommands_of env db) (get_connector env k)
                (snd (handle_loop env (command_of env opts) before w))) = Some e"
  shows "handle env opts w =
           (Some (except_StorageError e),
            snd (try_body env (command_of env opts) (dbcommands_of env db) (get_connector env k)
                   (snd (handle_loop env (command_of env opts) before w))))"
proof -
  let ?self = "command_of env opts"
  obtain w1 where pre: "handle_loop env ?self before w = (None, w1)"
    using assms(2) by (cases "handle_loop env ?self before w") simp
  obtain w2 where body: "try_body env ?self (dbcommands_of env db) (get_connector env k) w1 = (Some e, w2)"
    using assms(4) pre
    by (cases "try_body env ?self (dbcommands_of env db) (get_connector env k) w1") simp
  have "handle_database env ?self k w1 = (Some (except_StorageError e), w2)"
    using assms(3) body by (simp add: handle_database_def)
  then have "handle_loop env ?self (before @ k # after) w = (Some (except_StorageError e), w2)"
    using pre by (simp add: handle_loop_append)
  then show ?thesis
    using assms(1) pre body by (simp add: handle_def Let_def)
qed

theorem failing_database_ends_run_witness:
  "database_keys (demo_env 1) (command_of (demo_env 1) all_databases) =
     [] @ ''db'' # [''broken'', ''logs''] \<and>
   fst (handle (demo_env 1) all_databases (demo_world five_backups [''db-2023-03-06.dump'']))
     = Some (CommandError (StorageError ''db-2023-03-06.dump'')) \<and>
   calls (snd (handle (demo_env 1) all_databases (demo_world five_backups [''db-2023-03-06.dump''])))
     = [CreateDump, WriteFile ''dump of db'' ''db-2023-03-06.dump'']"
proof -
  let ?w = "demo_world five_backups [''db-2023-03-06.dump'']"
  let ?self = "command_of (demo_env 1) all_databases"
  have keys: "database_keys (demo_env 1) ?self = [] @ ''db'' # [''broken'', ''logs'']"
    by code_simp
  have pre: "fst (handle_loop (demo_env 1) ?self [] ?w) = None"
    by simp
  have db: "SETTINGS_DATABASES (demo_env 1) ''db'' = Some demo_db"
    by (simp add: demo_env_def demo_databases_def demo_db_def)
  have fails: "fst (try_body (demo_env 1) ?self (dbcommands_of (demo_env 1) demo_db)
      (get_connector (demo_env 1) ''db'') (snd (handle_loop (demo_env 1) ?self [] ?w)))
      = Some (StorageError ''db-2023-03-06.dump'')"
    by code_simp
  have trace: "calls (snd (try_body (demo_env 1) ?self (dbcommands_of (demo_env 1) demo_db)
      (get_connector (demo_env 1) ''db'') (snd (handle_loop (demo_env 1) ?self [] ?w))))
      = [CreateDump, WriteFile ''dump of db'' ''db-2023-03-06.dump'']"
    by code_simp
  show ?thesis
    using failing_database_ends_run [OF keys pre db fails] keys trace
    by (simp add: except_StorageError_def)
qed

text \<open>
  The claim as written fails on the three databases \<^verbatim>\<open>db\<close>, \<^verbatim>\<open>broken\<close>, \<^verbatim>\<open>logs\<close>: the
  dump of \<^verbatim>\<open>broken\<close> fails, the run ends with that exception, and \<^verbatim>\<open>logs\<close>, whose
  dump would succeed, is never dumped nor written.
\<close>

theorem later_database_not_attempted_counterexample:
  "database_keys (demo_env 1) (command_of (demo_env 1) all_databases) =
     [''db'', ''broken'', ''logs''] \<and>
   fst (handle (demo_env 1) all_databases (demo_world [] [])) =
     Some (OtherError ''DumpFailed'') \<and>
   calls (snd (handle (demo_env 1) all_databases (demo_world [] []))) =
     [CreateDump, WriteFile ''dump of db'' ''db-2023-03-06.dump'', ListDirectory, CreateDump] \<and>
   files (storage (snd (handle (demo_env 1) all_databases (demo_world [] [])))) =
     [''db-2023-03-06.dump''] \<and>
   create_dump (get_connector (demo_env 1) ''logs'') = Inr ''dump of logs''"
  by code_simp

text \<open>
  Claim C10. In the turn of one database, when saving the backup raises, or when
  cleaning is off, the turn ends in the world the save left: the trace of the turn has
  no \<^verbatim>\<open>list_directory\<close> and no \<^verbatim>\<open>delete_file\<close>.
\<close>

theorem no_cleanup_without_saved_backup:
  assumes "SETTINGS_DATABASES env k = Some db"
    and "fst (save_new_backup env self (dbcommands_of env db) (get_connector env k) w) \<noteq> None
         \<or> \<not> clean self"
  shows "handle_database env self k w =
           (map_option except_StorageError
              (fst (save_new_backup env self (dbcommands_of env db) (get_connector env k) w)),
            snd (save_new_backup env self (dbcommands_of env db) (get_connector env k) w)) \<and>
         ListDirectory \<notin> set (new_calls w (snd (handle_database env self k w))) \<and>
         deleted_paths (new_calls w (snd (handle_database env self k w))) = []"
proof -
  let ?save = "save_new_backup env self (dbcommands_of env db) (get_connector env k) w"
  obtain r w1 where save: "?save = (r, w1)" by (cases ?save)
  have "try_body env self (dbcommands_of env db) (get_connector env k) w = (r, w1)"
    using assms(2) save by (cases r) (auto simp add: try_body_def)
  then have run: "handle_database env self k w = (map_option except_StorageError r, w1)"
    using assms(1) by (cases r) (simp_all add: handle_database_def)
  from save_new_backup_trace [of env self "dbcommands_of env db" "get_connector env k" w] save
  obtain cs where cs: "calls w1 = calls w @ cs" "deleted_paths cs = []" "ListDirectory \<notin> set cs"
    by auto
  have "new_calls w w1 = cs" using cs(1) by (rule new_calls_append)
  with run save cs(2,3) show ?thesis by simp
qed

theorem no_cleanup_without_saved_backup_witness:
  "clean (demo_self 1) \<and>
   fst (handle_database (demo_env 1) (demo_self 1) ''db''
          (demo_world five_backups [''db-2023-03-06.dump'']))
     = Some (CommandError (StorageError ''db-2023-03-06.dump'')) \<and>
   ListDirectory \<notin> set (new_calls (demo_world five_backups [''db-2023-03-06.dump''])
     (snd (handle_database (demo_env 1) (demo_self 1) ''db''
          (demo_world five_backups [''db-2023-03-06.dump''])))) \<and>
   deleted_paths (new_calls (demo_world five_backups [''db-2023-03-06.dump''])
     (snd (handle_database (demo_env 1) (demo_self 1) ''db''
          (demo_world five_backups [''db-2023-03-06.dump''])))) = []"
proof -
  let ?w = "demo_world five_backups [''db-2023-03-06.dump'']"
  have db: "SETTINGS_DATABASES (demo_env 1) ''db'' = Some demo_db"
    by (simp add: demo_env_def demo_databases_def demo_db_def)
  have save: "fst (save_new_backup (demo_env 1) (demo_self 1) (dbcommands_of (demo_env 1) demo_db)
      (get_connector (demo_env 1) ''db'') ?w) = Some (StorageError ''db-2023-03-06.dump'')"
    by code_simp
  then have fails: "fst (save_new_backup (demo_env 1) (demo_self 1) (dbcommands_of (demo_env 1) demo_db)
      (get_connector (demo_env 1) ''db'') ?w) \<noteq> None \<or> \<not> clean (demo_self 1)"
    by simp
  have on: "clean (demo_self 1)"
    by code_simp
  note run = no_cleanup_without_saved_backup [OF db fails]
  from run have "fst (handle_database (demo_env 1) (demo_self 1) ''db'' ?w) =
      map_option except_StorageError (fst (save_new_backup (demo_env 1) (demo_self 1)
        (dbcommands_of (demo_env 1) demo_db) (get_connector (demo_env 1) ''db'') ?w))"
    by simp
  then have err: "fst (handle_database (demo_env 1) (demo_self 1) ''db'' ?w) =
      Some (CommandError (StorageError ''db-2023-03-06.dump''))"
    by (simp add: save except_StorageError_def)
  from run on err show ?thesis by blast
qed

text \<open>
  Claim C4, as amended. The code never checks the keep count. With a keep count of 0 the
  slice \<^verbatim>\<open>filepaths[0:-0]\<close> is empty, so a run deletes nothing, whatever the databases
  and the listing; the backup is written and the directory listed as usual.
\<close>

theorem keep_zero_deletes_nothing:
  assumes "CLEANUP_KEEP env = 0"
  shows "deleted_paths (new_calls w (snd (handle env opts w))) = []"
proof -
  let ?self = "command_of env opts"
  have "clean_keep ?self = 0"
    using assms by (simp add: command_of_def)
  from handle_loop_keep_zero_trace [OF this, of env "database_keys env ?self" w]
  obtain cs where cs:
    "calls (snd (handle_loop env ?self (database_keys env ?self) w)) = calls w @ cs"
    "deleted_paths cs = []"
    by blast
  have "calls (snd (handle env opts w)) = calls w @ cs"
    using cs(1) by (simp add: handle_def Let_def)
  then have "new_calls w (snd (handle env opts w)) = cs"
    by (rule new_calls_append)
  with cs(2) show ?thesis by simp
qed

theorem keep_zero_deletes_nothing_witness:
  "CLEANUP_KEEP (demo_env 0) = 0 \<and>
   fst (handle (demo_env 0) demo_options (demo_world five_backups [])) = None \<and>
   calls (snd (handle (demo_env 0) demo_options (demo_world five_backups []))) =
     [CreateDump, WriteFile ''dump of db'' ''db-2023-03-06.dump'', ListDirectory] \<and>
   deleted_paths (new_calls (demo_world five_backups [])
     (snd (handle (demo_env 0) demo_options (demo_world five_backups [])))) = []"
proof -
  have zero: "CLEANUP_KEEP (demo_env 0) = 0"
    by (simp add: demo_env_def)
  have ok: "fst (handle (demo_env 0) demo_options (demo_world five_backups [])) = None"
    by code_simp
  have trace: "calls (snd (handle (demo_env 0) demo_options (demo_world five_backups []))) =
     [CreateDump, WriteFile ''dump of db'' ''db-2023-03-06.dump'', ListDirectory]"
    by code_simp
  show ?thesis
    using keep_zero_deletes_nothing [OF zero, of "demo_world five_backups []" demo_options]
      zero ok trace by simp
qed

text \<open>
  The claim as written fails with a keep count of -1: the run succeeds, writes the
  backup, lists the directory, and deletes the first entry of the listing.
\<close>

theorem negative_keep_deletes_counterexample:
  "clean (command_of (demo_env (- 1)) demo_options) \<and>
   clean_keep (command_of (demo_env (- 1)) demo_options) = - 1 \<and>
   fst (handle (demo_env (- 1)) demo_options
          (demo_world [''db-2023-01-15.dump'', ''db-2023-02-20.dump''] [])) = None \<and>
   calls (snd (handle (demo_env (- 1)) demo_options
          (demo_world [''db-2023-01-15.dump'', ''db-2023-02-20.dump''] []))) =
     [CreateDump, WriteFile ''dump of db'' ''db-2023-03-06.dump'', ListDirectory,
      DeleteFile ''db-2023-01-15.dump'']"
  by code_simp

subsection \<open>The backup artifact\<close>

text \<open>
  Claim C9. With compression and encryption off and no output file name given, the
  artifact is the stream \<^verbatim>\<open>create_dump\<close> returned and the name is the one
  \<^verbatim>\<open>dbcommands.filename\<close> returned, and the write step receives exactly these (the
  storage the stream and the name, a local path the stream).
\<close>

theorem no_transform_passes_dump_through:
  assumes "\<not> compress self" and "\<not> encrypt self" and "\<not> truthy (filename self)"
    and "create_dump conn = Inr raw"
  shows "backup_artifact env self dbc conn w =
           (Inr (raw, dbc_filename dbc (servername self)), record_call CreateDump w) \<and>
         save_new_backup env self dbc conn w =
           (case path self of
              None \<Rightarrow> storage_write_file env raw (dbc_filename dbc (servername self))
                        (record_call CreateDump w)
            | Some p \<Rightarrow> write_local_file env raw p (record_call CreateDump w))"
proof -
  have art: "backup_artifact env self dbc conn w =
               (Inr (raw, dbc_filename dbc (servername self)), record_call CreateDump w)"
    using assms by (simp add: backup_artifact_def Let_def)
  then show ?thesis
    by (simp add: save_new_backup_def)
qed

theorem no_transform_passes_dump_through_witness:
  "create_dump (demo_connector ''db'') = Inr ''dump of db'' \<and>
   fst (backup_artifact (demo_env 1) (demo_self 1) demo_dbc (demo_connector ''db'')
          (demo_world [] [])) = Inr (''dump of db'', ''db-2023-03-06.dump'') \<and>
   calls (snd (save_new_backup (demo_env 1) (demo_self 1) demo_dbc (demo_connector ''db'')
          (demo_world [] []))) = [CreateDump, WriteFile ''dump of db'' ''db-2023-03-06.dump'']"
proof -
  let ?w = "demo_world [] []"
  have plain: "\<not> compress (demo_self 1)" "\<not> encrypt (demo_self 1)"
    "\<not> truthy (filename (demo_self 1))"
    by code_simp+
  have dump: "create_dump (demo_connector ''db'') = Inr ''dump of db''"
    by code_simp
  have name: "dbc_filename demo_dbc (servername (demo_self 1)) = ''db-2023-03-06.dump''"
    by code_simp
  have dest: "path (demo_self 1) = None"
    by code_simp
  note inst = no_transform_passes_dump_through [OF plain dump, of "demo_env 1" demo_dbc ?w]
  from inst have art: "fst (backup_artifact (demo_env 1) (demo_self 1) demo_dbc
      (demo_connector ''db'') ?w) = Inr (''dump of db'', ''db-2023-03-06.dump'')"
    by (simp add: name)
  from inst have "save_new_backup (demo_env 1) (demo_self 1) demo_dbc (demo_connector ''db'') ?w =
      storage_write_file (demo_env 1) ''dump of db'' ''db-2023-03-06.dump''
        (record_call CreateDump ?w)"
    by (simp add: name dest)
  then have "calls (snd (save_new_backup (demo_env 1) (demo_self 1) demo_dbc
      (demo_connector ''db'') ?w)) = [CreateDump, WriteFile ''dump of db'' ''db-2023-03-06.dump'']"
    by (simp add: storage_write_file_calls calls_record_call demo_world_def)
  with dump art show ?thesis by blast
qed

text \<open>
  Claim C8, as amended. With compression and encryption both on and no output file name
  given, the compression stage runs on the dump and the encryption stage on its output,
  and the name handed to the write step is the derived name followed by the compression
  suffix and then the encryption suffix. The stages are those of \<open>transform_stage\<close>.
\<close>

theorem compress_then_encrypt_suffixes:
  assumes "compress self" and "encrypt self" and "\<not> truthy (filename self)"
    and "create_dump conn = Inr raw"
    and "compress_file env = transform_stage z zsfx"
    and "encrypt_file env = transform_stage c csfx"
    and "z raw = Inr zipped" and "c zipped = Inr sealed"
  shows "fst (backup_artifact env self dbc conn w) =
           Inr (sealed, dbc_filename dbc (servername self) @ zsfx @ csfx) \<and>
         save_new_backup env self dbc conn w =
           (case path self of
              None \<Rightarrow> storage_write_file env sealed
                        (dbc_filename dbc (servername self) @ zsfx @ csfx)
                        (snd (backup_artifact env self dbc conn w))
            | Some p \<Rightarrow> write_local_file env sealed p
                         (snd (backup_artifact env self dbc conn w)))"
proof -
  let ?n = "dbc_filename dbc (servername self)"
  have c1: "compress_file env raw ?n = Inr (zipped, ?n @ zsfx)"
    using assms(5,7) by (simp add: transform_stage_def)
  have c2: "encrypt_file env zipped (?n @ zsfx) = Inr (sealed, (?n @ zsfx) @ csfx)"
    using assms(6,8) by (simp add: transform_stage_def)
  obtain w3 where art: "backup_artifact env self dbc conn w = (Inr (sealed, ?n @ zsfx @ csfx), w3)"
    using assms(1-4) c1 c2 by (simp add: backup_artifact_def Let_def)
  then show ?thesis
    by (simp add: save_new_backup_def split: option.splits)
qed

theorem compress_then_encrypt_suffixes_witness:
  "compress (command_of (demo_env 1) both_stages) \<and>
   encrypt (command_of (demo_env 1) both_stages) \<and>
   demo_gzip ''dump of db'' = Inr ''gz(dump of db)'' \<and>
   demo_gpg ''gz(dump of db)'' = Inr ''gpg(gz(dump of db))'' \<and>
   fst (backup_artifact (demo_env 1) (command_of (demo_env 1) both_stages) demo_dbc
          (demo_connector ''db'') (demo_world [] []))
     = Inr (''gpg(gz(dump of db))'', ''db-2023-03-06.dump.gz.gpg'')"
proof -
  let ?self = "command_of (demo_env 1) both_stages"
  have on: "compress ?self" "encrypt ?self" "\<not> truthy (filename ?self)"
    by code_simp+
  have dump: "create_dump (demo_connector ''db'') = Inr ''dump of db''"
    by code_simp
  have st1: "compress_file (demo_env 1) = transform_stage demo_gzip ''.gz''"
    by (simp add: demo_env_def)
  have st2: "encrypt_file (demo_env 1) = transform_stage demo_gpg ''.gpg''"
    by (simp add: demo_env_def)
  have z: "demo_gzip ''dump of db'' = Inr ''gz(dump of db)''"
    by (simp add: demo_gzip_def)
  have c: "demo_gpg ''gz(dump of db)'' = Inr ''gpg(gz(dump of db))''"
    by (simp add: demo_gpg_def)
  have name: "dbc_filename demo_dbc (servername ?self) = ''db-2023-03-06.dump''"
    by code_simp
  from compress_then_encrypt_suffixes [OF on dump st1 st2 z c, of demo_dbc "demo_world [] []"]
  have "fst (backup_artifact (demo_env 1) ?self demo_dbc (demo_connector ''db'')
      (demo_world [] [])) = Inr (''gpg(gz(dump of db))'', ''db-2023-03-06.dump.gz.gpg'')"
    by (simp add: name)
  with on z c show ?thesis by blast
qed

text \<open>
  The claim as written fails when \<^verbatim>\<open>--output-filename\<close> is given: line 84 replaces the
  name the stages built, and the compressed and encrypted stream is written under
  \<^verbatim>\<open>latest.bak\<close>.
\<close>

theorem explicit_filename_has_no_suffix_counterexample:
  "compress (command_of (demo_env 1) named_output) \<and>
   encrypt (command_of (demo_env 1) named_output) \<and>
   fst (save_new_backup (demo_env 1) (command_of (demo_env 1) named_output) demo_dbc
          (demo_connector ''db'') (demo_world [] [])) = None \<and>
   calls (snd (save_new_backup (demo_env 1) (command_of (demo_env 1) named_output) demo_dbc
          (demo_connector ''db'') (demo_world [] []))) =
     [CreateDump, CompressFile ''db-2023-03-06.dump'', EncryptFile ''db-2023-03-06.dump.gz'',
      WriteFile ''gpg(gz(dump of db))'' ''latest.bak''] \<and>
   \<not> suffix (''.gz'' @ ''.gpg'') ''latest.bak''"
  by code_simp

end
